theory Spec2Isabelle
  imports Complex_Main "HOL-Library.Word"
begin

section \<open>Common machinery\<close>

text \<open>
  Go's \<^verbatim>\<open>time.Time\<close> and \<^verbatim>\<open>time.Duration\<close> are counted in nanoseconds.  The
  saturation of \<^verbatim>\<open>time.Since\<close> at about 292 years is outside every scenario treated
  here, so both are unbounded integers.
\<close>

type_synonym time = int
type_synonym duration = int

definition Second :: duration where
  "Second = 1000000000"

definition Minute :: duration where
  "Minute = 60 * Second"

text \<open>
  \<^verbatim>\<open>int(d.Minutes())\<close>: \<^verbatim>\<open>Minutes\<close> adds, as float64s, the whole minutes of the duration and
  the rest divided by a minute, and the conversion to \<^verbatim>\<open>int\<close> drops the fraction, rounding
  towards zero.  For durations of magnitude below \<open>2\<^sup>1\<^sup>8\<close> minutes (about 182 days) the
  result is the truncated integer quotient written here.  From \<open>2\<^sup>1\<^sup>8\<close> minutes on, the
  float64 sum of a duration one nanosecond short of a whole minute rounds to that whole
  minute, and the code's result is one further from zero than this quotient; what is
  proved of \<open>Minutes_int\<close> is stated for durations below that bound.
\<close>

definition Minutes_int :: "duration \<Rightarrow> int" where
  "Minutes_int d = (if d < 0 then - ((- d) div Minute) else d div Minute)"

text \<open>\<^verbatim>\<open>strconv.Itoa\<close>: the decimal rendering of an integer.\<close>

definition digit_char :: "nat \<Rightarrow> char" where
  "digit_char n = char_of (48 + n)"

fun digits :: "nat \<Rightarrow> string" where
  "digits n = (if n < 10 then [digit_char n] else digits (n div 10) @ [digit_char (n mod 10)])"

declare digits.simps [simp del]

definition Itoa :: "int \<Rightarrow> string" where
  "Itoa i = (if i < 0 then CHR ''-'' # digits (nat (- i)) else digits (nat i))"

section \<open>Sessions (\<^verbatim>\<open>session.go\<close>)\<close>

text \<open>
  The \<^verbatim>\<open>Session\<close> struct.  \<^verbatim>\<open>Conn\<close> is a pointer to the WebSocket connection,
  \<open>None\<close> when nil, otherwise a handle naming the connection.  The \<^verbatim>\<open>Mutex\<close> field is a
  pointer to a lock; no function treated here locks it, and it is left out.  \<^verbatim>\<open>RateLimitAllowance\<close> is a float64 that this
  development only ever copies.
\<close>

record Session =
  Conn :: "nat option"
  Closed :: bool
  SessionID :: "64 word"
  UserID :: int
  Username :: string
  Muted :: bool
  Status :: int
  TableID :: "64 word"
  Friends :: "int set"
  ReverseFriends :: "int set"
  Hyphenated :: bool
  Inactive :: bool
  FakeUser :: bool
  RateLimitAllowance :: real
  RateLimitLastCheck :: time
  Banned :: bool

section \<open>Graceful shutdown\<close>

subsection \<open>Data\<close>

text \<open>
  What the shutdown code reads of a \<^verbatim>\<open>Table\<close>.  The methods \<^verbatim>\<open>GetOwnerSession\<close> and
  \<^verbatim>\<open>GetRoomName\<close> are defined elsewhere in the server; their results on a table are
  carried as the fields \<open>OwnerSession\<close> and \<open>RoomName\<close>.
\<close>

record Table =
  ID :: "64 word"
  Running :: bool
  Replay :: bool
  OwnerSession :: Session
  RoomName :: string

text \<open>The fields of \<^verbatim>\<open>CommandData\<close> that the shutdown code fills in.\<close>

record CommandData =
  d_TableID :: "64 word"
  d_Type :: int
  d_Target :: int
  d_Value :: int
  d_NoLock :: bool

text \<open>
  Constants of the server that are declared in files other than the ones verified here;
  every function that uses one takes the record as its first argument.
\<close>

record constants =
  ShutdownTimeout :: duration
  ActionTypeEndGame :: int
  EndConditionTerminated :: int
  RateLimitRate :: real
  StatusLobby :: int
  DefaultErrorMsg :: string

text \<open>The three package-level variables of the shutdown code.\<close>

record shutdown_vars =
  shuttingDown :: bool
  blockAllIncomingMessages :: bool
  datetimeShutdownInit :: time

datatype goroutine = GoShutdownXMinutesLeft int | GoShutdownWait

text \<open>
  The effects of the shutdown code, in the order in which it performs them: writes to
  the package-level variables, blocking operations, and calls into the rest of the
  server.  A function of the shutdown code is its list of effects, computed from what it
  reads.  The sessions that the shutdown code is handed are not nil.
\<close>

datatype action =
    LoggerInfo string
  | LoggerError string
  | ShuttingDownSet
  | ShuttingDownUnSet
  | DatetimeShutdownInitSet time
  | BlockAllIncomingMessagesSet
  | CommandWaitGroupWait
  | Sleep duration
  | Go goroutine
  | TableLock "64 word"
  | TableUnlock "64 word"
  | GetTableAndLock "64 word"
  | SessionError Session string
  | SessionWarning Session string
  | NotifySoundLobby Session string
  | NotifyAllShutdown
  | ChatServerSend string string
  | ChatServerSendAll string
  | CommandTableLeave Session CommandData
  | CommandAction Session CommandData
  | ExecuteScript string

fun apply_action :: "action \<Rightarrow> shutdown_vars \<Rightarrow> shutdown_vars" where
  "apply_action ShuttingDownSet v = v\<lparr>shuttingDown := True\<rparr>"
| "apply_action ShuttingDownUnSet v = v\<lparr>shuttingDown := False\<rparr>"
| "apply_action (DatetimeShutdownInitSet t) v = v\<lparr>datetimeShutdownInit := t\<rparr>"
| "apply_action BlockAllIncomingMessagesSet v = v\<lparr>blockAllIncomingMessages := True\<rparr>"
| "apply_action _ v = v"

fun apply_actions :: "action list \<Rightarrow> shutdown_vars \<Rightarrow> shutdown_vars" where
  "apply_actions [] v = v"
| "apply_actions (a # as) v = apply_actions as (apply_action a v)"

text \<open>
  What \<^verbatim>\<open>shutdownImmediate\<close> reads from outside the shutdown code: the snapshot
  \<^verbatim>\<open>sessions.GetList()\<close>, \<^verbatim>\<open>getCurrentTimestamp()\<close>, \<^verbatim>\<open>runtime.GOOS\<close> and the error
  (if any) of running the stop script.
\<close>

record immediate_env =
  sessionList :: "Session list"
  currentTimestamp :: string
  GOOS :: string
  stopScriptError :: "string option"

subsection \<open>Functions\<close>

definition waitForAllWebSocketCommandsToFinish :: "action list" where
  "waitForAllWebSocketCommandsToFinish =
     [LoggerInfo ''Waiting for all ongoing WebSocket commands to finish execution...'',
      BlockAllIncomingMessagesSet,
      CommandWaitGroupWait,
      LoggerInfo ''All WebSocket commands have completed.'']"

definition maintenanceMsg :: string where
  "maintenanceMsg =
     ''The server is going down for scheduled maintenance.<br />'' @
     ''The server might be down for a while; '' @
     ''please see the Discord server for more specific updates.''"

definition notifySessions :: "Session list \<Rightarrow> action list" where
  "notifySessions ss =
     concat (map (\<lambda>s. [SessionError s maintenanceMsg, NotifySoundLobby s ''shutdown'']) ss)"

definition shutdownImmediate :: "immediate_env \<Rightarrow> action list" where
  \<open>shutdownImmediate e =
     [LoggerInfo ''Initiating an immediate server shutdown.''] @
     waitForAllWebSocketCommandsToFinish @
     notifySessions (sessionList e) @
     [ChatServerSend (''The server successfully shut down at: '' @ currentTimestamp e) ''lobby''] @
     (if GOOS e = ''windows'' then [LoggerInfo ''Manually kill the server now.'']
      else ExecuteScript ''stop.sh'' #
        (case stopScriptError e of
           None \<Rightarrow> []
         | Some err \<Rightarrow> [LoggerError (''Failed to execute the "stop.sh" script: '' @ err)]))\<close>

fun countActiveTables_loop :: "Table list \<Rightarrow> int \<Rightarrow> action list \<times> int" where
  "countActiveTables_loop [] numTables = ([], numTables)"
| "countActiveTables_loop (t # ts) numTables =
     (let r = countActiveTables_loop ts
                (if Running t \<and> \<not> Replay t then numTables + 1 else numTables)
      in (TableLock (ID t) # TableUnlock (ID t) # fst r, snd r))"

definition countActiveTables :: "Table list \<Rightarrow> action list \<times> int" where
  "countActiveTables tableList = countActiveTables_loop tableList 0"

definition shutdown :: "constants \<Rightarrow> time \<Rightarrow> Table list \<Rightarrow> immediate_env \<Rightarrow> action list" where
  "shutdown K now tableList e =
     (let c = countActiveTables tableList; numGames = snd c in
      [ShuttingDownSet, DatetimeShutdownInitSet now] @ fst c @
      [LoggerInfo (''Initiating a graceful server shutdown (with '' @ Itoa numGames @
                   '' active games).'')] @
      (if numGames = 0 then shutdownImmediate e
       else
         [NotifyAllShutdown,
          ChatServerSendAll (''The server will shutdown in '' @
                             Itoa (Minutes_int (ShutdownTimeout K)) @ '' minutes.''),
          Go (GoShutdownXMinutesLeft 5),
          Go (GoShutdownXMinutesLeft 10),
          Go GoShutdownWait]))"


text \<open>The lock/unlock pair that a loop over a table snapshot performs around each read.\<close>

definition lockEach :: "Table list \<Rightarrow> action list" where
  "lockEach tableList = concat (map (\<lambda>t. [TableLock (ID t), TableUnlock (ID t)]) tableList)"

text \<open>
  \<^verbatim>\<open>getTableAndLock\<close> is defined elsewhere in the server.  Its result for a table id is
  read from \<open>getTable\<close>, the table set at the moment of the call: \<open>None\<close> when the table
  no longer exists.
\<close>

fun leaveTables :: "(64 word \<Rightarrow> Table option) \<Rightarrow> 64 word list \<Rightarrow> action list" where
  "leaveTables getTable [] = []"
| "leaveTables getTable (unstartedTableID # ids) =
     GetTableAndLock unstartedTableID #
     (case getTable unstartedTableID of
        None \<Rightarrow> leaveTables getTable ids
      | Some t \<Rightarrow>
          CommandTableLeave (OwnerSession t)
            \<lparr>d_TableID = ID t, d_Type = 0, d_Target = 0, d_Value = 0, d_NoLock = True\<rparr> #
          TableUnlock (ID t) #
          leaveTables getTable ids)"

definition shutdownXMinutesLeft ::
  "constants \<Rightarrow> int \<Rightarrow> shutdown_vars \<Rightarrow> Table list \<Rightarrow> (64 word \<Rightarrow> Table option) \<Rightarrow> action list"
where
  "shutdownXMinutesLeft K minutesLeft v tableList getTable =
     Sleep (ShutdownTimeout K - minutesLeft * Minute) #
     (if \<not> shuttingDown v then []
      else
        (if minutesLeft = 5
         then lockEach tableList @
              leaveTables getTable (map ID (filter (\<lambda>t. \<not> Running t) tableList))
         else []) @
        (let msg = ''The server will shutdown in '' @ Itoa minutesLeft @ '' minutes.'' in
         [ChatServerSend msg ''lobby''] @
         lockEach tableList @
         map (ChatServerSend (msg @ '' Finish your game soon or it will be automatically terminated!''))
             (map RoomName tableList)))"

fun terminateTables ::
  "constants \<Rightarrow> (64 word \<Rightarrow> Table option) \<Rightarrow> 64 word list \<Rightarrow> action list"
where
  "terminateTables K getTable [] = []"
| "terminateTables K getTable (tableIDToTerminate # ids) =
     GetTableAndLock tableIDToTerminate #
     (case getTable tableIDToTerminate of
        None \<Rightarrow> terminateTables K getTable ids
      | Some t \<Rightarrow>
          CommandAction (OwnerSession t)
            \<lparr>d_TableID = ID t, d_Type = ActionTypeEndGame K, d_Target = - 1,
             d_Value = EndConditionTerminated K, d_NoLock = True\<rparr> #
          TableUnlock (ID t) #
          terminateTables K getTable ids)"

text \<open>
  What one iteration of the polling loop reads: the package-level variables, the clock,
  the snapshot that \<^verbatim>\<open>countActiveTables\<close> takes, the second snapshot taken in the
  deadline branch, the table set seen by \<^verbatim>\<open>getTableAndLock\<close>, and what
  \<^verbatim>\<open>shutdownImmediate\<close> reads.
\<close>

record poll =
  p_vars :: shutdown_vars
  p_now :: time
  p_tables :: "Table list"
  p_tables2 :: "Table list"
  p_getTable :: "64 word \<Rightarrow> Table option"
  p_env :: immediate_env

datatype ctl = Break | Continue

definition shutdownWait_iter :: "constants \<Rightarrow> poll \<Rightarrow> action list \<times> ctl" where
  "shutdownWait_iter K p =
     (if \<not> shuttingDown (p_vars p) then ([LoggerInfo ''The shutdown was aborted.''], Break)
      else
        let c = countActiveTables (p_tables p); numActiveTables = snd c in
        if numActiveTables = 0 then
          (fst c @
           [Sleep (Second * 10), LoggerInfo ''There are 0 active tables left.''] @
           shutdownImmediate (p_env p), Break)
        else if numActiveTables > 0 \<and>
                p_now p - datetimeShutdownInit (p_vars p) \<ge> ShutdownTimeout K then
          (fst c @
           lockEach (p_tables2 p) @
           terminateTables K (p_getTable p)
             (map ID (filter (\<lambda>t. Running t \<and> \<not> Replay t) (p_tables2 p))) @
           [Sleep Second], Continue)
        else (fst c @ [Sleep Second], Continue))"

text \<open>
  The loop \<^verbatim>\<open>for { ... }\<close> of \<^verbatim>\<open>shutdownWait\<close>, run over the reads of its successive
  iterations.  It returns only through a \<^verbatim>\<open>break\<close>; \<open>None\<close> says that the loop is still
  polling after the last iteration given.
\<close>

fun shutdownWait :: "constants \<Rightarrow> poll list \<Rightarrow> action list option" where
  "shutdownWait K [] = None"
| "shutdownWait K (p # ps) =
     (case shutdownWait_iter K p of
        (as, Break) \<Rightarrow> Some as
      | (as, Continue) \<Rightarrow> map_option ((@) as) (shutdownWait K ps))"

definition cancel :: "action list" where
  "cancel = [ShuttingDownUnSet, NotifyAllShutdown,
             ChatServerSendAll ''Server shutdown has been canceled.'']"

definition checkImminentShutdown ::
  "constants \<Rightarrow> shutdown_vars \<Rightarrow> time \<Rightarrow> Session \<Rightarrow> bool \<times> action list"
where
  "checkImminentShutdown K v now s =
     (if \<not> shuttingDown v then (False, [])
      else
        let timeLeft = ShutdownTimeout K - (now - datetimeShutdownInit v);
            minutesLeft = Minutes_int timeLeft in
        if minutesLeft \<le> 5 then
          (True,
           [SessionWarning s
              (''The server is shutting down '' @
               (if minutesLeft = 0 then ''momentarily''
                else if minutesLeft = 1 then ''in 1 minute''
                else ''in '' @ Itoa minutesLeft @ '' minutes'') @
               ''. You cannot start any new games for the time being.'')])
        else (False, []))"

subsection \<open>The shutdown code running beside the command handlers\<close>

text \<open>
  \<^verbatim>\<open>commandWaitGroup\<close> counts the WebSocket commands in execution, and
  \<^verbatim>\<open>commandWaitGroup.Wait()\<close> returns only at a moment when the counter is zero.  A
  configuration holds the counter, the package-level variables, the effects the shutdown
  code has still to perform and those it has performed.
\<close>

record conf =
  counter :: nat
  vars :: shutdown_vars
  pending :: "action list"
  performed :: "action list"

datatype sched = ShutdownThread | CommandEnter | CommandDone

text \<open>
  Modelled from the spec: the entry of a command into the admission gate, which the
  WebSocket message handler performs, in a file of the server other than the ones treated
  here.  ``\<^verbatim>\<open>enter()\<close>: if the global block-new-commands flag is set, fails (the command
  must not proceed); otherwise increments the in-flight counter.''
\<close>

definition commandEnter :: "conf \<Rightarrow> conf" where
  "commandEnter c =
     (if blockAllIncomingMessages (vars c) then c else c\<lparr>counter := counter c + 1\<rparr>)"

text \<open>
  Modelled from the spec: the release that ends a command, in the same handler.  ``Scoped
  release: decrements the in-flight counter''; it pairs with a successful entry, so it
  occurs only while the counter is positive.
\<close>

definition commandDone :: "conf \<Rightarrow> conf" where
  "commandDone c = (if counter c = 0 then c else c\<lparr>counter := counter c - 1\<rparr>)"

text \<open>
  One step of the shutdown code: it performs its next effect, except that at
  \<^verbatim>\<open>commandWaitGroup.Wait()\<close> it stays blocked while the counter is not zero.
\<close>

definition shutdownStep :: "conf \<Rightarrow> conf" where
  "shutdownStep c =
     (case pending c of
        [] \<Rightarrow> c
      | a # as \<Rightarrow>
          if a = CommandWaitGroupWait \<and> counter c \<noteq> 0 then c
          else c\<lparr>vars := apply_action a (vars c), pending := as,
                 performed := performed c @ [a]\<rparr>)"

fun step :: "sched \<Rightarrow> conf \<Rightarrow> conf" where
  "step ShutdownThread c = shutdownStep c"
| "step CommandEnter c = commandEnter c"
| "step CommandDone c = commandDone c"

fun run :: "sched list \<Rightarrow> conf \<Rightarrow> conf" where
  "run [] c = c"
| "run (x # xs) c = run xs (step x c)"

definition start :: "nat \<Rightarrow> shutdown_vars \<Rightarrow> action list \<Rightarrow> conf" where
  "start n v prog = \<lparr>counter = n, vars = v, pending = prog, performed = []\<rparr>"


section \<open>Session functions (\<^verbatim>\<open>session.go\<close>)\<close>

text \<open>
  \<^verbatim>\<open>NewSession\<close> adds one to the package-level \<^verbatim>\<open>sessionIDCounter\<close>, a uint64, with
  \<^verbatim>\<open>atomic.AddUint64\<close>, which returns the new value.  The function takes the counter
  and the clock and returns the new counter with the session.
\<close>

definition NewSession :: "constants \<Rightarrow> time \<Rightarrow> 64 word \<Rightarrow> 64 word \<times> Session" where
  "NewSession K now sessionIDCounter =
     (sessionIDCounter + 1,
      \<lparr>Conn = None, Closed = False,
       SessionID = sessionIDCounter + 1,
       UserID = - 1, Username = [], Muted = False,
       Status = StatusLobby K, TableID = 0,
       Friends = {}, ReverseFriends = {},
       Hyphenated = False, Inactive = False, FakeUser = False,
       RateLimitAllowance = RateLimitRate K,
       RateLimitLastCheck = now, Banned = False\<rparr>)"

definition NewFakeSession ::
  "constants \<Rightarrow> time \<Rightarrow> 64 word \<Rightarrow> int \<Rightarrow> string \<Rightarrow> 64 word \<times> Session"
where
  "NewFakeSession K now sessionIDCounter uid name =
     (let r = NewSession K now sessionIDCounter in
      (fst r, (snd r)\<lparr>UserID := uid, Username := name, FakeUser := True\<rparr>))"

text \<open>
  A sequence of \<^verbatim>\<open>NewSession\<close> calls, one per clock reading, in the order in which the
  atomic additions take place; the sessions are returned in that order.
\<close>

fun NewSession_calls :: "constants \<Rightarrow> time list \<Rightarrow> 64 word \<Rightarrow> Session list \<times> 64 word" where
  "NewSession_calls K [] c = ([], c)"
| "NewSession_calls K (now # ts) c =
     (let r = NewSession K now c; rest = NewSession_calls K ts (fst r)
      in (snd r # fst rest, snd rest))"

text \<open>The effects of \<^verbatim>\<open>Emit\<close>: a frame written to the connection, or a log line.\<close>

datatype io =
    WriteMessage nat int string
  | SLoggerError string

definition TextMessage :: int where
  "TextMessage = 1"

text \<open>
  \<^verbatim>\<open>Emit\<close> on a receiver that may be nil.  \<open>marshal\<close> is \<^verbatim>\<open>json.Marshal\<close> (\<open>Inl\<close> its
  error) and \<open>werr\<close> the error, if any, of the write to the connection.
\<close>

definition Emit ::
  "('d \<Rightarrow> string + string) \<Rightarrow> Session option \<Rightarrow> string \<Rightarrow> 'd \<Rightarrow> string option \<Rightarrow> io list"
where
  \<open>Emit marshal s command d werr =
     (case s of
        None \<Rightarrow> []
      | Some s' \<Rightarrow>
          (case Conn s' of
             None \<Rightarrow> []
           | Some conn \<Rightarrow>
               (case marshal d of
                  Inl err \<Rightarrow>
                    [SLoggerError
                       (''Failed to marshal data when writing to a WebSocket session: '' @ err)]
                | Inr ds \<Rightarrow>
                    (let msg = command @ '' '' @ ds in
                     WriteMessage conn TextMessage msg #
                     (case werr of
                        None \<Rightarrow> []
                      | Some err \<Rightarrow>
                          [SLoggerError
                             (''Failed to write to the session of user "'' @ Username s' @
                              ''": '' @ err)])))))\<close>

section \<open>The WebSocket handshake (\<^verbatim>\<open>http_ws.go\<close>)\<close>











section \<open>Replay navigation of the client (\<^verbatim>\<open>replay.ts\<close>)\<close>

text \<open>
  A segment is a JavaScript \<^verbatim>\<open>number\<close>: \<^verbatim>\<open>NaN\<close>, one of the two infinities, or a finite
  value.  The functions treated here only compare numbers and pass them on, so a finite
  value is carried as the real number it denotes; \<^verbatim>\<open>+0\<close> and \<^verbatim>\<open>-0\<close>, which \<^verbatim>\<open>===\<close> does not
  tell apart, are one value.
\<close>

datatype number = NaN | NegInf | Fin real | PosInf

text \<open>The order of two numbers, false as soon as one of them is \<^verbatim>\<open>NaN\<close>.\<close>

fun num_le :: "number \<Rightarrow> number \<Rightarrow> bool" where
  "num_le NaN _ = False"
| "num_le _ NaN = False"
| "num_le NegInf _ = True"
| "num_le _ PosInf = True"
| "num_le (Fin x) (Fin y) = (x \<le> y)"
| "num_le (Fin x) NegInf = False"
| "num_le PosInf _ = False"

text \<open>\<^verbatim>\<open>Math.min\<close> and \<^verbatim>\<open>Math.max\<close> of two numbers: \<^verbatim>\<open>NaN\<close> as soon as one of them is.\<close>

definition Math_min :: "number \<Rightarrow> number \<Rightarrow> number" where
  "Math_min a b = (if a = NaN \<or> b = NaN then NaN else if num_le a b then a else b)"

definition Math_max :: "number \<Rightarrow> number \<Rightarrow> number" where
  "Math_max a b = (if a = NaN \<or> b = NaN then NaN else if num_le a b then b else a)"

text \<open>
  \<^verbatim>\<open>state.ongoingGame.turn.segment\<close> has type \<^verbatim>\<open>number | null\<close> (it is null while the game
  initialises); it is \<open>None\<close> when null.  The non-null assertion \<^verbatim>\<open>!\<close> of the source does
  nothing when the code runs.  Where JavaScript turns null into a number, as \<^verbatim>\<open>Math.min\<close>
  does with its arguments, the number is 0; \<^verbatim>\<open>x ?? 0\<close> gives the same.
\<close>

definition toNumber :: "number option \<Rightarrow> number" where
  "toNumber v = (case v of None \<Rightarrow> Fin 0 | Some n \<Rightarrow> n)"

text \<open>\<^verbatim>\<open>a === b\<close> for \<open>a\<close> a number or null and \<open>b\<close> a number: \<^verbatim>\<open>NaN\<close> equals nothing.\<close>

definition strict_eq :: "number option \<Rightarrow> number \<Rightarrow> bool" where
  "strict_eq a b = (case a of None \<Rightarrow> False | Some x \<Rightarrow> (if x = NaN then False else x = b))"

record replay_state =
  replay_active :: bool
  replay_segment :: number
  replay_useSharedSegments :: bool
  ongoingGame_turn_segment :: "number option"

record globals =
  hypothetical :: bool
  sharedReplay :: bool
  amSharedReplayLeader :: bool

text \<open>The actions that the navigation dispatches to the store.\<close>

datatype dispatch =
    ReplayEnter number
  | ReplayExit
  | ReplayUseSharedSegments bool
  | ReplaySegment number
  | ReplaySharedSegment number

text \<open>\<^verbatim>\<open>enter\<close>; its optional argument is \<open>None\<close> when left out.\<close>

definition enter :: "replay_state \<Rightarrow> number option \<Rightarrow> dispatch list" where
  "enter state customSegment =
     (if replay_active state then []
      else [ReplayEnter
              (case customSegment of
                 Some n \<Rightarrow> n
               | None \<Rightarrow> toNumber (ongoingGame_turn_segment state))])"

definition exit :: "replay_state \<Rightarrow> dispatch list" where
  "exit state = (if \<not> replay_active state then [] else [ReplayExit])"

definition getCurrentReplaySegment :: "replay_state \<Rightarrow> number option" where
  "getCurrentReplaySegment state =
     (if replay_active state then Some (replay_segment state)
      else ongoingGame_turn_segment state)"

text \<open>The local function \<^verbatim>\<open>clamp\<close> of \<^verbatim>\<open>goToSegment\<close>.\<close>

definition clamp :: "number \<Rightarrow> number \<Rightarrow> number \<Rightarrow> number" where
  "clamp n lo hi = Math_max lo (Math_min n hi)"

definition goToSegment ::
  "globals \<Rightarrow> replay_state \<Rightarrow> number \<Rightarrow> bool \<Rightarrow> bool \<Rightarrow> dispatch list"
where
  "goToSegment g state segment breakFree force =
     (let finalSegment = ongoingGame_turn_segment state;
          currentSegment = getCurrentReplaySegment state;
          newSegment = clamp segment (Fin 0) (toNumber finalSegment)
      in
      if strict_eq currentSegment newSegment then []
      else if hypothetical g \<and> \<not> force then []
      else
        enter state (Some newSegment) @
        (if sharedReplay g \<and> breakFree \<and> replay_useSharedSegments state \<and>
            \<not> amSharedReplayLeader g
         then [ReplayUseSharedSegments False] else []) @
        [ReplaySegment newSegment] @
        (if sharedReplay g \<and> amSharedReplayLeader g \<and> replay_useSharedSegments state
         then [ReplaySharedSegment newSegment] else []))"

text \<open>The segment that an action asks the store to move to, if it names one.\<close>

fun target :: "dispatch \<Rightarrow> number option" where
  "target (ReplayEnter n) = Some n"
| "target (ReplaySegment n) = Some n"
| "target (ReplaySharedSegment n) = Some n"
| "target _ = None"

text \<open>Constants used where a concrete server is needed.\<close>

definition K0 :: constants where
  "K0 = \<lparr>ShutdownTimeout = 30 * Minute, ActionTypeEndGame = 4, EndConditionTerminated = 4,
         RateLimitRate = 200, StatusLobby = 0, DefaultErrorMsg = ''Something went wrong.''\<rparr>"


section \<open>Concrete data for the instances\<close>

definition s0 :: Session where
  "s0 = \<lparr>Conn = Some 7, Closed = False, SessionID = 1, UserID = 42, Username = ''alice'',
         Muted = False, Status = 0, TableID = 0, Friends = {}, ReverseFriends = {},
         Hyphenated = False, Inactive = False, FakeUser = False, RateLimitAllowance = 200,
         RateLimitLastCheck = 0, Banned = False\<rparr>"

definition e0 :: immediate_env where
  "e0 = \<lparr>sessionList = [s0], currentTimestamp = ''Mon Jan 2 15:04:05 2006'',
         GOOS = ''linux'', stopScriptError = None\<rparr>"

definition tReplay :: Table where
  "tReplay = \<lparr>ID = 3, Running = True, Replay = True, OwnerSession = s0, RoomName = ''table3''\<rparr>"

definition tRunning :: Table where
  "tRunning = \<lparr>ID = 1, Running = True, Replay = False, OwnerSession = s0, RoomName = ''table1''\<rparr>"

definition tUnstarted :: Table where
  "tUnstarted = \<lparr>ID = 2, Running = False, Replay = False, OwnerSession = s0, RoomName = ''table2''\<rparr>"

definition v_armed :: shutdown_vars where
  "v_armed = \<lparr>shuttingDown = True, blockAllIncomingMessages = False, datetimeShutdownInit = 0\<rparr>"

definition tables0 :: "64 word \<Rightarrow> Table option" where
  "tables0 i = (if i = 1 then Some tRunning else if i = 2 then Some tUnstarted
                else if i = 3 then Some tReplay else None)"

definition p0 :: poll where
  "p0 = \<lparr>p_vars = v_armed, p_now = 31 * Minute, p_tables = [tRunning, tUnstarted, tReplay],
         p_tables2 = [tRunning, tUnstarted, tReplay], p_getTable = tables0, p_env = e0\<rparr>"

text \<open>A later iteration at which the running table is gone.\<close>

definition q0 :: poll where
  "q0 = \<lparr>p_vars = v_armed, p_now = 31 * Minute + Second, p_tables = [tUnstarted, tReplay],
         p_tables2 = [tUnstarted, tReplay], p_getTable = tables0, p_env = e0\<rparr>"

text \<open>
  A schedule in which one command is in execution when the shutdown code starts: the
  shutdown code runs up to its wait and stays blocked there, a new command is turned away
  at the gate, the command in execution finishes, and the shutdown code goes on to notify
  the session.
\<close>

definition xs0 :: "sched list" where
  "xs0 = [ShutdownThread, ShutdownThread, ShutdownThread, ShutdownThread, CommandEnter,
          CommandDone, ShutdownThread, ShutdownThread, ShutdownThread]"

definition v_idle :: shutdown_vars where
  "v_idle = \<lparr>shuttingDown = False, blockAllIncomingMessages = False, datetimeShutdownInit = 0\<rparr>"



definition g0 :: globals where
  "g0 = \<lparr>hypothetical = False, sharedReplay = False, amSharedReplayLeader = False\<rparr>"

text \<open>A game in which no move has been made: the final segment is 0 and no replay is active.\<close>

definition st_unmoved :: replay_state where
  "st_unmoved = \<lparr>replay_active = False, replay_segment = Fin 0,
                 replay_useSharedSegments = False, ongoingGame_turn_segment = Some (Fin 0)\<rparr>"

text \<open>A game of ten segments watched in a replay at segment 3.\<close>

definition st0 :: replay_state where
  "st0 = \<lparr>replay_active = True, replay_segment = Fin 3, replay_useSharedSegments = False,
          ongoingGame_turn_segment = Some (Fin 10)\<rparr>"

section \<open>Definitions used in the proofs\<close>

text \<open>
  \<open>wait_ok as b\<close>: in the effects \<open>as\<close>, started with the block flag at \<open>b\<close>, every wait on
  the command counter comes at a point where the block flag is set.
\<close>

primrec wait_ok :: "action list \<Rightarrow> bool \<Rightarrow> bool" where
  "wait_ok [] b = True"
| "wait_ok (a # as) b =
     ((a = CommandWaitGroupWait \<longrightarrow> b) \<and> wait_ok as (b \<or> a = BlockAllIncomingMessagesSet))"

definition drained :: "action list \<Rightarrow> conf \<Rightarrow> bool" where
  "drained prog c \<longleftrightarrow>
     performed c @ pending c = prog \<and>
     wait_ok (pending c) (blockAllIncomingMessages (vars c)) \<and>
     (CommandWaitGroupWait \<in> set (performed c) \<longrightarrow>
        counter c = 0 \<and> blockAllIncomingMessages (vars c))"

text \<open>The effects of \<^verbatim>\<open>Emit\<close> that write a frame to the connection.\<close>

fun is_write :: "io \<Rightarrow> bool" where
  "is_write (WriteMessage c t m) = True"
| "is_write _ = False"



section \<open>Immediate termination drains before it notifies\<close>

lemma wait_ok_mono: "wait_ok as b \<Longrightarrow> (b \<longrightarrow> b') \<Longrightarrow> wait_ok as b'"
proof (induction as arbitrary: b b')
  case Nil
  show ?case by simp
next
  case (Cons a as)
  from Cons.prems have 1: "a = CommandWaitGroupWait \<longrightarrow> b'" by simp
  from Cons.prems have 2: "wait_ok as (b \<or> a = BlockAllIncomingMessagesSet)" by simp
  have "wait_ok as (b' \<or> a = BlockAllIncomingMessagesSet)"
    by (rule Cons.IH [OF 2]) (use Cons.prems in blast)
  with 1 show ?case by simp
qed

lemma wait_ok_no_wait: "CommandWaitGroupWait \<notin> set as \<Longrightarrow> wait_ok as b"
  by (induction as arbitrary: b) auto

lemma apply_action_block:
  "blockAllIncomingMessages (apply_action a v) = (blockAllIncomingMessages v \<or> a = BlockAllIncomingMessagesSet)"
  by (cases a) simp_all

lemma no_wait_notifySessions: "CommandWaitGroupWait \<notin> set (notifySessions ss)"
  by (auto simp: notifySessions_def)

lemma wait_ok_shutdownImmediate: "wait_ok (shutdownImmediate e) b"
  by (simp add: shutdownImmediate_def waitForAllWebSocketCommandsToFinish_def wait_ok_no_wait
      no_wait_notifySessions split: option.splits)

lemma drained_step: "drained prog c \<Longrightarrow> drained prog (step x c)"
proof (cases x)
  case ShutdownThread
  assume d: "drained prog c"
  show ?thesis
  proof (cases "pending c")
    case Nil
    with d ShutdownThread show ?thesis by (simp add: shutdownStep_def)
  next
    case (Cons a as)
    with d ShutdownThread show ?thesis
      by (auto simp: shutdownStep_def drained_def apply_action_block elim: wait_ok_mono)
  qed
next
  case CommandEnter
  assume "drained prog c"
  with CommandEnter show ?thesis by (auto simp: commandEnter_def drained_def)
next
  case CommandDone
  assume "drained prog c"
  with CommandDone show ?thesis by (auto simp: commandDone_def drained_def)
qed

lemma drained_run: "drained prog c \<Longrightarrow> drained prog (run xs c)"
  by (induction xs arbitrary: c) (simp_all add: drained_step)

lemma drained_start: "wait_ok prog (blockAllIncomingMessages v) \<Longrightarrow> drained prog (start n v prog)"
  by (simp add: drained_def start_def)

lemma notify_not_early:
  assumes "performed c @ pending c = shutdownImmediate e"
    and "SessionError s m \<in> set (performed c) \<or> NotifySoundLobby s m \<in> set (performed c)"
  shows "\<exists>post. performed c =
           [LoggerInfo ''Initiating an immediate server shutdown.'',
            LoggerInfo ''Waiting for all ongoing WebSocket commands to finish execution...'',
            BlockAllIncomingMessagesSet, CommandWaitGroupWait] @ post"
proof -
  let ?h = "[LoggerInfo ''Initiating an immediate server shutdown.'',
            LoggerInfo ''Waiting for all ongoing WebSocket commands to finish execution...'',
            BlockAllIncomingMessagesSet, CommandWaitGroupWait]"
  obtain r where r: "shutdownImmediate e = ?h @ r"
    by (simp add: shutdownImmediate_def waitForAllWebSocketCommandsToFinish_def)
  with assms(1) have "performed c @ pending c = ?h @ r" by simp
  then obtain us where "performed c = ?h @ us \<or> performed c @ us = ?h"
    by (auto simp only: append_eq_append_conv2)
  then show ?thesis
  proof
    assume "performed c = ?h @ us" then show ?thesis by blast
  next
    assume "performed c @ us = ?h"
    then have "set (performed c) \<subseteq> set ?h" by (metis set_append Un_upper1)
    with assms(2) show ?thesis by auto
  qed
qed

text \<open>
  Claim C1.  Immediate termination works in a fixed order.  Take the shutdown code running
  \<^verbatim>\<open>shutdownImmediate\<close> beside any number of commands that enter the gate and finish, in
  any interleaving.  At any moment at which some session has been sent the final message
  or sound, the shutdown code has before that set the flag that blocks new commands and
  then returned from the wait on the command counter, in this order and ahead of every
  notification; the flag is set and no command is in execution.
\<close>

theorem shutdownImmediate_drains_before_notifying:
  assumes "c = run xs (start n v (shutdownImmediate e))"
    and "SessionError s m \<in> set (performed c) \<or> NotifySoundLobby s m \<in> set (performed c)"
  shows "blockAllIncomingMessages (vars c) \<and> counter c = 0 \<and>
         (\<exists>post. performed c =
            [LoggerInfo ''Initiating an immediate server shutdown.'',
             LoggerInfo ''Waiting for all ongoing WebSocket commands to finish execution...'',
             BlockAllIncomingMessagesSet, CommandWaitGroupWait] @ post)"
proof -
  have d: "drained (shutdownImmediate e) c"
    unfolding assms(1) by (intro drained_run drained_start wait_ok_shutdownImmediate)
  then have "performed c @ pending c = shutdownImmediate e" by (simp add: drained_def)
  from notify_not_early [OF this assms(2)] obtain post where
    p: "performed c =
            [LoggerInfo ''Initiating an immediate server shutdown.'',
             LoggerInfo ''Waiting for all ongoing WebSocket commands to finish execution...'',
             BlockAllIncomingMessagesSet, CommandWaitGroupWait] @ post" ..
  then have "CommandWaitGroupWait \<in> set (performed c)" by simp
  with d p show ?thesis by (auto simp: drained_def)
qed


theorem shutdownImmediate_drains_before_notifying_witness:
  "SessionError s0 maintenanceMsg \<in> set (performed (run xs0 (start 1 v_idle (shutdownImmediate e0)))) \<and>
   blockAllIncomingMessages (vars (run xs0 (start 1 v_idle (shutdownImmediate e0)))) \<and>
   counter (run xs0 (start 1 v_idle (shutdownImmediate e0))) = 0 \<and>
   counter (run (take 5 xs0) (start 1 v_idle (shutdownImmediate e0))) = 1"
proof -
  have h: "SessionError s0 maintenanceMsg
             \<in> set (performed (run xs0 (start 1 v_idle (shutdownImmediate e0))))"
    by (simp add: xs0_def start_def shutdownImmediate_def waitForAllWebSocketCommandsToFinish_def
        notifySessions_def e0_def v_idle_def shutdownStep_def commandEnter_def commandDone_def)
  have b: "counter (run (take 5 xs0) (start 1 v_idle (shutdownImmediate e0))) = 1"
    by (simp add: xs0_def start_def shutdownImmediate_def waitForAllWebSocketCommandsToFinish_def
        notifySessions_def e0_def v_idle_def shutdownStep_def commandEnter_def commandDone_def)
  from shutdownImmediate_drains_before_notifying [OF refl, of s0 maintenanceMsg xs0 1 v_idle e0] h b
  show ?thesis by blast
qed

section \<open>The shutdown trigger\<close>

lemma countActiveTables_loop_eq:
  "countActiveTables_loop ts n =
     (lockEach ts, n + int (length (filter (\<lambda>t. Running t \<and> \<not> Replay t) ts)))"
  by (induction ts arbitrary: n) (simp_all add: lockEach_def Let_def)

lemma countActiveTables_eq:
  "countActiveTables ts = (lockEach ts, int (length (filter (\<lambda>t. Running t \<and> \<not> Replay t) ts)))"
  by (simp add: countActiveTables_def countActiveTables_loop_eq)

lemma set_lockEach: "set (lockEach ts) = (\<Union>t\<in>set ts. {TableLock (ID t), TableUnlock (ID t)})"
  by (induction ts) (auto simp: lockEach_def)

lemma set_notifySessions:
  "set (notifySessions ss) = (\<Union>s\<in>set ss. {SessionError s maintenanceMsg, NotifySoundLobby s ''shutdown''})"
  by (induction ss) (auto simp: notifySessions_def)

lemma shutdownImmediate_quiet:
  "NotifyAllShutdown \<notin> set (shutdownImmediate e)"
  "ChatServerSendAll m \<notin> set (shutdownImmediate e)"
  "Go g \<notin> set (shutdownImmediate e)"
  "Sleep d \<notin> set (shutdownImmediate e)"
  by (auto simp: shutdownImmediate_def waitForAllWebSocketCommandsToFinish_def set_notifySessions
      split: option.splits)

text \<open>
  Claim C2.  Every call of \<^verbatim>\<open>shutdown\<close> begins by setting the armed flag and recording
  the arm timestamp.  It then counts the active tables, and the count is the number of
  tables of the snapshot whose \<^verbatim>\<open>Running\<close> flag is set and whose \<^verbatim>\<open>Replay\<close> flag is not.
  When the count is zero the rest of the call is the log line followed by immediate
  termination: no countdown notice is broadcast, no goroutine (warning timer or polling
  loop) is started and nothing sleeps.
\<close>

theorem shutdown_trigger:
  "take 2 (shutdown K now tableList e) = [ShuttingDownSet, DatetimeShutdownInitSet now] \<and>
   snd (countActiveTables tableList) =
     int (length (filter (\<lambda>t. Running t \<and> \<not> Replay t) tableList)) \<and>
   (snd (countActiveTables tableList) = 0 \<longrightarrow>
      shutdown K now tableList e =
        [ShuttingDownSet, DatetimeShutdownInitSet now] @ fst (countActiveTables tableList) @
        [LoggerInfo (''Initiating a graceful server shutdown (with '' @ Itoa 0 @
                     '' active games).'')] @
        shutdownImmediate e \<and>
      NotifyAllShutdown \<notin> set (shutdown K now tableList e) \<and>
      (\<forall>m. ChatServerSendAll m \<notin> set (shutdown K now tableList e)) \<and>
      (\<forall>g. Go g \<notin> set (shutdown K now tableList e)) \<and>
      (\<forall>d. Sleep d \<notin> set (shutdown K now tableList e)))"
proof (intro conjI impI)
  show "take 2 (shutdown K now tableList e) = [ShuttingDownSet, DatetimeShutdownInitSet now]"
    by (simp add: shutdown_def Let_def)
  show "snd (countActiveTables tableList) =
     int (length (filter (\<lambda>t. Running t \<and> \<not> Replay t) tableList))"
    by (simp add: countActiveTables_eq)
next
  assume z: "snd (countActiveTables tableList) = 0"
  then show eq: "shutdown K now tableList e =
        [ShuttingDownSet, DatetimeShutdownInitSet now] @ fst (countActiveTables tableList) @
        [LoggerInfo (''Initiating a graceful server shutdown (with '' @ Itoa 0 @
                     '' active games).'')] @
        shutdownImmediate e"
    by (simp add: shutdown_def Let_def)
  show "NotifyAllShutdown \<notin> set (shutdown K now tableList e)"
    unfolding eq by (auto simp: countActiveTables_eq set_lockEach shutdownImmediate_quiet)
  show "\<forall>m. ChatServerSendAll m \<notin> set (shutdown K now tableList e)"
    unfolding eq by (auto simp: countActiveTables_eq set_lockEach shutdownImmediate_quiet)
  show "\<forall>g. Go g \<notin> set (shutdown K now tableList e)"
    unfolding eq by (auto simp: countActiveTables_eq set_lockEach shutdownImmediate_quiet)
  show "\<forall>d. Sleep d \<notin> set (shutdown K now tableList e)"
    unfolding eq by (auto simp: countActiveTables_eq set_lockEach shutdownImmediate_quiet)
qed

theorem shutdown_trigger_witness:
  "snd (countActiveTables [tReplay, tUnstarted]) = 0 \<and>
   (\<forall>g. Go g \<notin> set (shutdown K0 1000 [tReplay, tUnstarted] e0)) \<and>
   take 2 (shutdown K0 1000 [tReplay, tUnstarted] e0) = [ShuttingDownSet, DatetimeShutdownInitSet 1000]"
proof -
  have h: "snd (countActiveTables [tReplay, tUnstarted]) = 0"
    by (simp add: countActiveTables_def tReplay_def tUnstarted_def)
  from shutdown_trigger [of K0 1000 "[tReplay, tUnstarted]" e0] h show ?thesis by blast
qed


section \<open>The polling loop at the deadline\<close>

lemma leaveTables_found:
  "i \<in> set ids \<Longrightarrow> getTable i = Some t \<Longrightarrow>
   CommandTableLeave (OwnerSession t)
     \<lparr>d_TableID = ID t, d_Type = 0, d_Target = 0, d_Value = 0, d_NoLock = True\<rparr>
     \<in> set (leaveTables getTable ids)"
  by (induction ids) (auto split: option.splits)

lemma leaveTables_only:
  "CommandTableLeave s d \<in> set (leaveTables getTable ids) \<Longrightarrow>
   \<exists>i\<in>set ids. \<exists>t. getTable i = Some t \<and> s = OwnerSession t \<and> d_TableID d = ID t"
  by (induction ids) (auto split: option.splits)

lemma terminateTables_found:
  "i \<in> set ids \<Longrightarrow> getTable i = Some t \<Longrightarrow>
   CommandAction (OwnerSession t)
     \<lparr>d_TableID = ID t, d_Type = ActionTypeEndGame K, d_Target = - 1,
      d_Value = EndConditionTerminated K, d_NoLock = True\<rparr>
     \<in> set (terminateTables K getTable ids)"
  by (induction ids) (auto split: option.splits)

lemma terminateTables_quiet:
  "BlockAllIncomingMessagesSet \<notin> set (terminateTables K getTable ids)"
  "CommandWaitGroupWait \<notin> set (terminateTables K getTable ids)"
  "SessionError s m \<notin> set (terminateTables K getTable ids)"
  by (induction ids) (auto split: option.splits)

lemma lockEach_quiet:
  "BlockAllIncomingMessagesSet \<notin> set (lockEach ts)"
  "CommandWaitGroupWait \<notin> set (lockEach ts)"
  "SessionError s m \<notin> set (lockEach ts)"
  "CommandTableLeave s d \<notin> set (lockEach ts)"
  by (auto simp: set_lockEach)

lemma shutdownWait_iter_deadline:
  assumes "shuttingDown (p_vars p)"
    and "snd (countActiveTables (p_tables p)) > 0"
    and "p_now p - datetimeShutdownInit (p_vars p) \<ge> ShutdownTimeout K"
  shows "shutdownWait_iter K p =
           (lockEach (p_tables p) @ lockEach (p_tables2 p) @
            terminateTables K (p_getTable p)
              (map ID (filter (\<lambda>t. Running t \<and> \<not> Replay t) (p_tables2 p))) @
            [Sleep Second], Continue)"
  using assms by (simp add: shutdownWait_iter_def Let_def countActiveTables_eq)

lemma wait_in_iter:
  "CommandWaitGroupWait \<in> set (fst (shutdownWait_iter K q)) \<Longrightarrow>
   shuttingDown (p_vars q) \<and> snd (countActiveTables (p_tables q)) = 0"
  by (auto simp: shutdownWait_iter_def Let_def countActiveTables_eq lockEach_quiet
      terminateTables_quiet split: if_splits)

lemma shutdownWait_iter_zero:
  assumes "shuttingDown (p_vars q)" and "snd (countActiveTables (p_tables q)) = 0"
  shows "shutdownWait_iter K q =
           (lockEach (p_tables q) @
            [Sleep (Second * 10), LoggerInfo ''There are 0 active tables left.''] @
            shutdownImmediate (p_env q), Break)"
  using assms by (simp add: shutdownWait_iter_def Let_def countActiveTables_eq)

lemma shutdownWait_iter_active:
  assumes "shuttingDown (p_vars q)" and "snd (countActiveTables (p_tables q)) > 0"
  shows "snd (shutdownWait_iter K q) = Continue"
  using assms by (simp add: shutdownWait_iter_def Let_def)

lemma shutdownWait_continues:
  "\<forall>t\<in>set ps. snd (shutdownWait_iter K t) = Continue \<Longrightarrow>
   shutdownWait K (ps @ rest) =
     map_option ((@) (concat (map (\<lambda>t. fst (shutdownWait_iter K t)) ps))) (shutdownWait K rest)"
proof (induction ps)
  case Nil
  show ?case by (simp add: option.map_ident)
next
  case (Cons t ps)
  then have c: "snd (shutdownWait_iter K t) = Continue"
    and r: "\<forall>t\<in>set ps. snd (shutdownWait_iter K t) = Continue" by simp_all
  obtain as where as: "shutdownWait_iter K t = (as, Continue)"
    using c by (cases "shutdownWait_iter K t") simp
  show ?case
    by (simp add: as Cons.IH [OF r] option.map_comp comp_def)
qed

text \<open>
  Claim C3, as amended.  On an iteration of the polling loop at which shutdown is armed,
  the time since arming is at least \<^verbatim>\<open>ShutdownTimeout\<close> and at least one table is active,
  every table of the snapshot whose \<^verbatim>\<open>Running\<close> flag is set and whose \<^verbatim>\<open>Replay\<close> flag is
  not, and which \<^verbatim>\<open>getTableAndLock\<close> still finds, is sent an end-game action with the
  end condition \<^verbatim>\<open>EndConditionTerminated\<close>.  The iteration does nothing else but lock the
  tables it reads and, at its end, sleep one second; the loop continues, and no step of
  immediate termination is taken in it.  The process proceeds to immediate termination
  at the first later iteration at which shutdown is still armed and no table is active:
  that iteration sleeps ten seconds, logs, performs \<^verbatim>\<open>shutdownImmediate\<close> and ends the
  loop.  Only an armed iteration that counts zero active tables waits on the command
  counter.
\<close>

theorem shutdownWait_deadline:
  assumes "shuttingDown (p_vars p)"
    and "snd (countActiveTables (p_tables p)) > 0"
    and "p_now p - datetimeShutdownInit (p_vars p) \<ge> ShutdownTimeout K"
  shows "(\<forall>t\<in>set (p_tables2 p). Running t \<and> \<not> Replay t \<longrightarrow>
            (\<forall>t'. p_getTable p (ID t) = Some t' \<longrightarrow>
               CommandAction (OwnerSession t')
                 \<lparr>d_TableID = ID t', d_Type = ActionTypeEndGame K, d_Target = - 1,
                  d_Value = EndConditionTerminated K, d_NoLock = True\<rparr>
               \<in> set (fst (shutdownWait_iter K p)))) \<and>
         shutdownWait_iter K p =
           (lockEach (p_tables p) @ lockEach (p_tables2 p) @
            terminateTables K (p_getTable p)
              (map ID (filter (\<lambda>t. Running t \<and> \<not> Replay t) (p_tables2 p))) @
            [Sleep Second], Continue) \<and>
         CommandWaitGroupWait \<notin> set (fst (shutdownWait_iter K p)) \<and>
         (\<forall>q. CommandWaitGroupWait \<in> set (fst (shutdownWait_iter K q)) \<longrightarrow>
               shuttingDown (p_vars q) \<and> snd (countActiveTables (p_tables q)) = 0) \<and>
         (\<forall>q. shuttingDown (p_vars q) \<and> snd (countActiveTables (p_tables q)) = 0 \<longrightarrow>
               shutdownWait_iter K q =
                 (lockEach (p_tables q) @
                  [Sleep (Second * 10), LoggerInfo ''There are 0 active tables left.''] @
                  shutdownImmediate (p_env q), Break)) \<and>
         (\<forall>ps q rest.
            (\<forall>t\<in>set ps. shuttingDown (p_vars t) \<and> snd (countActiveTables (p_tables t)) > 0) \<and>
            shuttingDown (p_vars q) \<and> snd (countActiveTables (p_tables q)) = 0 \<longrightarrow>
            shutdownWait K (p # ps @ q # rest) =
              Some (fst (shutdownWait_iter K p) @
                    concat (map (\<lambda>t. fst (shutdownWait_iter K t)) ps) @
                    lockEach (p_tables q) @
                    [Sleep (Second * 10), LoggerInfo ''There are 0 active tables left.''] @
                    shutdownImmediate (p_env q)))"
proof (intro conjI ballI impI allI)
  fix t t'
  assume "t \<in> set (p_tables2 p)" "Running t \<and> \<not> Replay t" "p_getTable p (ID t) = Some t'"
  then have "ID t \<in> set (map ID (filter (\<lambda>t. Running t \<and> \<not> Replay t) (p_tables2 p)))"
    by auto
  from terminateTables_found [of "ID t" _ "p_getTable p" t' K, OF this \<open>p_getTable p (ID t) = Some t'\<close>]
  show "CommandAction (OwnerSession t')
                 \<lparr>d_TableID = ID t', d_Type = ActionTypeEndGame K, d_Target = - 1,
                  d_Value = EndConditionTerminated K, d_NoLock = True\<rparr>
               \<in> set (fst (shutdownWait_iter K p))"
    by (simp add: shutdownWait_iter_deadline [OF assms])
next
  show "shutdownWait_iter K p =
           (lockEach (p_tables p) @ lockEach (p_tables2 p) @
            terminateTables K (p_getTable p)
              (map ID (filter (\<lambda>t. Running t \<and> \<not> Replay t) (p_tables2 p))) @
            [Sleep Second], Continue)"
    by (rule shutdownWait_iter_deadline [OF assms])
  show "CommandWaitGroupWait \<notin> set (fst (shutdownWait_iter K p))"
    using wait_in_iter [of K p] assms(2) by auto
next
  fix q :: poll
  assume "CommandWaitGroupWait \<in> set (fst (shutdownWait_iter K q))"
  then show "shuttingDown (p_vars q)" "snd (countActiveTables (p_tables q)) = 0"
    using wait_in_iter by blast+
next
  fix q :: poll
  assume "shuttingDown (p_vars q) \<and> snd (countActiveTables (p_tables q)) = 0"
  then show "shutdownWait_iter K q =
                 (lockEach (p_tables q) @
                  [Sleep (Second * 10), LoggerInfo ''There are 0 active tables left.''] @
                  shutdownImmediate (p_env q), Break)"
    by (simp add: shutdownWait_iter_zero)
next
  fix ps rest :: "poll list" and q :: poll
  assume a: "(\<forall>t\<in>set ps. shuttingDown (p_vars t) \<and> 0 < snd (countActiveTables (p_tables t))) \<and>
       shuttingDown (p_vars q) \<and> snd (countActiveTables (p_tables q)) = 0"
  then have c: "\<forall>t\<in>set ps. snd (shutdownWait_iter K t) = Continue"
    by (simp add: shutdownWait_iter_active)
  from a have z: "shutdownWait_iter K q =
                 (lockEach (p_tables q) @
                  [Sleep (Second * 10), LoggerInfo ''There are 0 active tables left.''] @
                  shutdownImmediate (p_env q), Break)"
    by (simp add: shutdownWait_iter_zero)
  have "shutdownWait K (q # rest) =
          Some (lockEach (p_tables q) @
                [Sleep (Second * 10), LoggerInfo ''There are 0 active tables left.''] @
                shutdownImmediate (p_env q))"
    by (simp add: z)
  with shutdownWait_continues [OF c, of "q # rest"]
  have "shutdownWait K (ps @ q # rest) =
          Some (concat (map (\<lambda>t. fst (shutdownWait_iter K t)) ps) @
                lockEach (p_tables q) @
                [Sleep (Second * 10), LoggerInfo ''There are 0 active tables left.''] @
                shutdownImmediate (p_env q))"
    by simp
  moreover obtain as where as: "shutdownWait_iter K p = (as, Continue)"
    using shutdownWait_iter_deadline [OF assms] by blast
  ultimately show "shutdownWait K (p # ps @ q # rest) =
              Some (fst (shutdownWait_iter K p) @
                    concat (map (\<lambda>t. fst (shutdownWait_iter K t)) ps) @
                    lockEach (p_tables q) @
                    [Sleep (Second * 10), LoggerInfo ''There are 0 active tables left.''] @
                    shutdownImmediate (p_env q))"
    by (simp add: as)
qed

theorem shutdownWait_deadline_witness:
  "CommandAction s0 \<lparr>d_TableID = 1, d_Type = 4, d_Target = - 1, d_Value = 4, d_NoLock = True\<rparr>
     \<in> set (fst (shutdownWait_iter K0 p0)) \<and>
   snd (shutdownWait_iter K0 p0) = Continue \<and>
   last (fst (shutdownWait_iter K0 p0)) = Sleep Second \<and>
   shutdownWait K0 [p0, p0, q0] =
     Some (fst (shutdownWait_iter K0 p0) @ fst (shutdownWait_iter K0 p0) @
           lockEach [tUnstarted, tReplay] @
           [Sleep (Second * 10), LoggerInfo ''There are 0 active tables left.''] @
           shutdownImmediate e0)"
proof -
  have 1: "shuttingDown (p_vars p0)" by (simp add: p0_def v_armed_def)
  have 2: "snd (countActiveTables (p_tables p0)) > 0"
    by (simp add: p0_def countActiveTables_def tRunning_def tUnstarted_def tReplay_def)
  have 3: "p_now p0 - datetimeShutdownInit (p_vars p0) \<ge> ShutdownTimeout K0"
    by (simp add: p0_def v_armed_def K0_def Minute_def Second_def)
  have 4: "tRunning \<in> set (p_tables2 p0)" "Running tRunning \<and> \<not> Replay tRunning"
    "p_getTable p0 (ID tRunning) = Some tRunning"
    by (simp_all add: p0_def tRunning_def tables0_def)
  have 5: "shuttingDown (p_vars q0)" "snd (countActiveTables (p_tables q0)) = 0"
    "p_tables q0 = [tUnstarted, tReplay]" "p_env q0 = e0"
    by (simp_all add: q0_def v_armed_def countActiveTables_def tUnstarted_def tReplay_def)
  note th = shutdownWait_deadline [OF 1 2 3]
  from th 4 have a: "CommandAction (OwnerSession tRunning)
     \<lparr>d_TableID = ID tRunning, d_Type = ActionTypeEndGame K0, d_Target = - 1,
        d_Value = EndConditionTerminated K0, d_NoLock = True\<rparr>
     \<in> set (fst (shutdownWait_iter K0 p0))" by blast
  from th have b: "shutdownWait_iter K0 p0 =
           (lockEach (p_tables p0) @ lockEach (p_tables2 p0) @
            terminateTables K0 (p_getTable p0)
              (map ID (filter (\<lambda>t. Running t \<and> \<not> Replay t) (p_tables2 p0))) @
            [Sleep Second], Continue)" by blast
  from th have "\<forall>ps q rest.
            (\<forall>t\<in>set ps. shuttingDown (p_vars t) \<and> snd (countActiveTables (p_tables t)) > 0) \<and>
            shuttingDown (p_vars q) \<and> snd (countActiveTables (p_tables q)) = 0 \<longrightarrow>
            shutdownWait K0 (p0 # ps @ q # rest) =
              Some (fst (shutdownWait_iter K0 p0) @
                    concat (map (\<lambda>t. fst (shutdownWait_iter K0 t)) ps) @
                    lockEach (p_tables q) @
                    [Sleep (Second * 10), LoggerInfo ''There are 0 active tables left.''] @
                    shutdownImmediate (p_env q))" by blast
  then have "(\<forall>t\<in>set [p0]. shuttingDown (p_vars t) \<and> snd (countActiveTables (p_tables t)) > 0) \<and>
            shuttingDown (p_vars q0) \<and> snd (countActiveTables (p_tables q0)) = 0 \<longrightarrow>
            shutdownWait K0 (p0 # [p0] @ q0 # []) =
              Some (fst (shutdownWait_iter K0 p0) @
                    concat (map (\<lambda>t. fst (shutdownWait_iter K0 t)) [p0]) @
                    lockEach (p_tables q0) @
                    [Sleep (Second * 10), LoggerInfo ''There are 0 active tables left.''] @
                    shutdownImmediate (p_env q0))" by blast
  with 1 2 5 have c: "shutdownWait K0 [p0, p0, q0] =
     Some (fst (shutdownWait_iter K0 p0) @ fst (shutdownWait_iter K0 p0) @
           lockEach [tUnstarted, tReplay] @
           [Sleep (Second * 10), LoggerInfo ''There are 0 active tables left.''] @
           shutdownImmediate e0)" by simp
  from a have a': "CommandAction s0
       \<lparr>d_TableID = 1, d_Type = 4, d_Target = - 1, d_Value = 4, d_NoLock = True\<rparr>
     \<in> set (fst (shutdownWait_iter K0 p0))" by (simp add: tRunning_def K0_def)
  from b have d: "snd (shutdownWait_iter K0 p0) = Continue"
    "last (fst (shutdownWait_iter K0 p0)) = Sleep Second" by simp_all
  from a' c d show ?thesis by blast
qed

text \<open>
  The claim as first stated has the process proceed to immediate termination after the
  tables are terminated.  With one running table past the deadline the iteration ends in
  the one-second sleep with the loop continuing, the block flag is not set and no session
  is notified; while the table stays active the loop keeps polling.
\<close>

theorem shutdownWait_deadline_counterexample:
  "shuttingDown (p_vars p0) \<and>
   p_now p0 - datetimeShutdownInit (p_vars p0) \<ge> ShutdownTimeout K0 \<and>
   snd (countActiveTables (p_tables p0)) = 1 \<and>
   snd (shutdownWait_iter K0 p0) = Continue \<and>
   last (fst (shutdownWait_iter K0 p0)) = Sleep Second \<and>
   BlockAllIncomingMessagesSet \<notin> set (fst (shutdownWait_iter K0 p0)) \<and>
   SessionError s0 maintenanceMsg \<notin> set (fst (shutdownWait_iter K0 p0)) \<and>
   shutdownWait K0 [p0, p0, p0] = None"
proof -
  have 1: "shuttingDown (p_vars p0)" by (simp add: p0_def v_armed_def)
  have 2: "snd (countActiveTables (p_tables p0)) = 1"
    by (simp add: p0_def countActiveTables_def tRunning_def tUnstarted_def tReplay_def)
  then have pos: "snd (countActiveTables (p_tables p0)) > 0" by simp
  have 3: "p_now p0 - datetimeShutdownInit (p_vars p0) \<ge> ShutdownTimeout K0"
    by (simp add: p0_def v_armed_def K0_def Minute_def Second_def)
  note eq = shutdownWait_iter_deadline [OF 1 pos 3]
  show ?thesis
    by (simp add: 1 2 3 eq lockEach_quiet terminateTables_quiet)
qed



section \<open>The warning at five minutes left\<close>

lemma set_shutdownXMinutesLeft_5:
  "shuttingDown v \<Longrightarrow>
   CommandTableLeave s d \<in> set (shutdownXMinutesLeft K 5 v ts getTable) \<longleftrightarrow>
   CommandTableLeave s d \<in> set (leaveTables getTable (map ID (filter (\<lambda>t. \<not> Running t) ts)))"
  by (auto simp: shutdownXMinutesLeft_def Let_def lockEach_quiet)

text \<open>
  Claim C4.  When the warning for five minutes left fires while shutdown is armed, the
  leave-table command is invoked, on behalf of the owner's session, for every table of
  the snapshot whose \<^verbatim>\<open>Running\<close> flag is not set (the table being the one that
  \<^verbatim>\<open>getTableAndLock\<close> finds under its id), and it is invoked for no table of the snapshot
  whose \<^verbatim>\<open>Running\<close> flag is set.  The table set is keyed by table id and the ids of a
  snapshot are distinct.
\<close>

theorem shutdownXMinutesLeft_5_leaves_unstarted:
  assumes "shuttingDown v"
    and "\<forall>i t'. getTable i = Some t' \<longrightarrow> ID t' = i"
    and "distinct (map ID tableList)"
  shows "(\<forall>t\<in>set tableList. \<not> Running t \<longrightarrow>
            (\<forall>t'. getTable (ID t) = Some t' \<longrightarrow>
               CommandTableLeave (OwnerSession t')
                 \<lparr>d_TableID = ID t, d_Type = 0, d_Target = 0, d_Value = 0, d_NoLock = True\<rparr>
               \<in> set (shutdownXMinutesLeft K 5 v tableList getTable))) \<and>
         (\<forall>t\<in>set tableList. Running t \<longrightarrow>
            (\<forall>s d. CommandTableLeave s d \<in> set (shutdownXMinutesLeft K 5 v tableList getTable)
                   \<longrightarrow> d_TableID d \<noteq> ID t))"
proof (intro conjI ballI impI allI)
  fix t t'
  assume t: "t \<in> set tableList" "\<not> Running t" and g: "getTable (ID t) = Some t'"
  then have "ID t \<in> set (map ID (filter (\<lambda>t. \<not> Running t) tableList))" by auto
  from leaveTables_found [of "ID t" _ getTable t', OF this g] assms(2) g
  have "CommandTableLeave (OwnerSession t')
          \<lparr>d_TableID = ID t, d_Type = 0, d_Target = 0, d_Value = 0, d_NoLock = True\<rparr>
        \<in> set (leaveTables getTable (map ID (filter (\<lambda>t. \<not> Running t) tableList)))"
    by auto
  then show "CommandTableLeave (OwnerSession t')
          \<lparr>d_TableID = ID t, d_Type = 0, d_Target = 0, d_Value = 0, d_NoLock = True\<rparr>
        \<in> set (shutdownXMinutesLeft K 5 v tableList getTable)"
    by (simp add: set_shutdownXMinutesLeft_5 [OF assms(1)])
next
  fix t s d
  assume t: "t \<in> set tableList" "Running t"
    and "CommandTableLeave s d \<in> set (shutdownXMinutesLeft K 5 v tableList getTable)"
  then have "CommandTableLeave s d
        \<in> set (leaveTables getTable (map ID (filter (\<lambda>t. \<not> Running t) tableList)))"
    by (simp add: set_shutdownXMinutesLeft_5 [OF assms(1)])
  from leaveTables_only [OF this] obtain u t' where
    u: "u \<in> set tableList" "\<not> Running u" "getTable (ID u) = Some t'" "d_TableID d = ID t'"
    by auto
  with assms(2) have "d_TableID d = ID u" by auto
  moreover have "ID u \<noteq> ID t"
  proof
    assume "ID u = ID t"
    with assms(3) u(1) t(1) have "u = t" by (meson distinct_map inj_onD)
    with u(2) t(2) show False by simp
  qed
  ultimately show "d_TableID d \<noteq> ID t" by simp
qed

theorem shutdownXMinutesLeft_5_leaves_unstarted_witness:
  "CommandTableLeave s0
     \<lparr>d_TableID = 2, d_Type = 0, d_Target = 0, d_Value = 0, d_NoLock = True\<rparr>
     \<in> set (shutdownXMinutesLeft K0 5 v_armed [tRunning, tUnstarted, tReplay] tables0) \<and>
   CommandTableLeave s0
     \<lparr>d_TableID = 1, d_Type = 0, d_Target = 0, d_Value = 0, d_NoLock = True\<rparr>
     \<notin> set (shutdownXMinutesLeft K0 5 v_armed [tRunning, tUnstarted, tReplay] tables0)"
proof -
  have 1: "shuttingDown v_armed" by (simp add: v_armed_def)
  have 2: "\<forall>i t'. tables0 i = Some t' \<longrightarrow> ID t' = i"
    by (simp add: tables0_def tRunning_def tUnstarted_def tReplay_def)
  have 3: "distinct (map ID [tRunning, tUnstarted, tReplay])"
    by (simp add: tRunning_def tUnstarted_def tReplay_def)
  have 4: "tUnstarted \<in> set [tRunning, tUnstarted, tReplay]" "\<not> Running tUnstarted"
    "tables0 (ID tUnstarted) = Some tUnstarted" "OwnerSession tUnstarted = s0" "ID tUnstarted = 2"
    "tRunning \<in> set [tRunning, tUnstarted, tReplay]" "Running tRunning" "ID tRunning = 1"
    by (simp_all add: tRunning_def tUnstarted_def tables0_def)
  note th = shutdownXMinutesLeft_5_leaves_unstarted [OF 1 2 3, of K0]
  from th 4(1-3) have "CommandTableLeave (OwnerSession tUnstarted)
     \<lparr>d_TableID = ID tUnstarted, d_Type = 0, d_Target = 0, d_Value = 0, d_NoLock = True\<rparr>
     \<in> set (shutdownXMinutesLeft K0 5 v_armed [tRunning, tUnstarted, tReplay] tables0)"
    by blast
  moreover from th 4(6,7) have "\<forall>s d. CommandTableLeave s d
     \<in> set (shutdownXMinutesLeft K0 5 v_armed [tRunning, tUnstarted, tReplay] tables0)
     \<longrightarrow> d_TableID d \<noteq> ID tRunning" by blast
  then have "CommandTableLeave s0
     \<lparr>d_TableID = 1, d_Type = 0, d_Target = 0, d_Value = 0, d_NoLock = True\<rparr>
     \<notin> set (shutdownXMinutesLeft K0 5 v_armed [tRunning, tUnstarted, tReplay] tables0)"
    using 4(8) by fastforce
  ultimately show ?thesis by (simp add: 4)
qed

section \<open>The query for an imminent shutdown\<close>

lemma int_div_le_iff:
  fixes d m k :: int
  assumes m: "0 < m"
  shows "d div m \<le> k \<longleftrightarrow> d < (k + 1) * m"
proof
  assume q: "d div m \<le> k"
  have "d = m * (d div m) + d mod m" by simp
  moreover have "d mod m < m" using m by simp
  moreover have "m * (d div m) \<le> m * k" using q m by (simp add: mult_left_mono)
  ultimately have "d < m * k + m" by linarith
  then show "d < (k + 1) * m" by (simp add: algebra_simps)
next
  assume lt: "d < (k + 1) * m"
  show "d div m \<le> k"
  proof (rule ccontr)
    assume "\<not> d div m \<le> k"
    then have "k + 1 \<le> d div m" by simp
    with m have "m * (k + 1) \<le> m * (d div m)" by (simp add: mult_left_mono)
    moreover have "m * (d div m) \<le> d"
    proof -
      have "d = m * (d div m) + d mod m" by simp
      moreover have "0 \<le> d mod m" using m by simp
      ultimately show ?thesis by linarith
    qed
    ultimately show False using lt by (simp add: algebra_simps)
  qed
qed

lemma Minute_pos: "0 < Minute"
  by (simp add: Minute_def Second_def)

lemma Minutes_int_le: "0 \<le> k \<Longrightarrow> Minutes_int d \<le> k \<longleftrightarrow> d < (k + 1) * Minute"
proof (cases "d < 0")
  case True
  assume k: "0 \<le> k"
  from True have "0 \<le> (- d) div Minute" using Minute_pos by (simp add: pos_imp_zdiv_nonneg_iff)
  with True k have l: "Minutes_int d \<le> k" by (simp add: Minutes_int_def)
  from k Minute_pos have "0 \<le> (k + 1) * Minute" by simp
  with True have "d < (k + 1) * Minute" by linarith
  with l show ?thesis by simp
next
  case False
  then show ?thesis using int_div_le_iff [OF Minute_pos] by (simp add: Minutes_int_def)
qed

lemma Minutes_int_0: "Minutes_int d = 0 \<longleftrightarrow> - Minute < d \<and> d < Minute"
proof (cases "d < 0")
  case True
  then have "Minutes_int d = 0 \<longleftrightarrow> (- d) div Minute = 0" by (simp add: Minutes_int_def)
  also have "\<dots> \<longleftrightarrow> - d < Minute" using True Minute_pos by (auto simp: zdiv_eq_0_iff)
  finally show ?thesis using True Minute_pos by auto
next
  case False
  then have "Minutes_int d = 0 \<longleftrightarrow> d div Minute = 0" by (simp add: Minutes_int_def)
  also have "\<dots> \<longleftrightarrow> d < Minute" using False Minute_pos by (auto simp: zdiv_eq_0_iff)
  finally show ?thesis using False Minute_pos by auto
qed

lemma Minutes_int_1: "Minutes_int d = 1 \<longleftrightarrow> Minute \<le> d \<and> d < 2 * Minute"
proof (cases "d < 0")
  case True
  from True have "0 \<le> (- d) div Minute" using Minute_pos by (simp add: pos_imp_zdiv_nonneg_iff)
  with True have "Minutes_int d \<le> 0" by (simp add: Minutes_int_def)
  with True Minute_pos show ?thesis by auto
next
  case False
  have "d div Minute = 1 \<longleftrightarrow> d div Minute \<le> 1 \<and> \<not> d div Minute \<le> 0" by auto
  also have "\<dots> \<longleftrightarrow> d < 2 * Minute \<and> \<not> d < Minute"
    by (simp add: int_div_le_iff [OF Minute_pos])
  finally show ?thesis using False by (auto simp: Minutes_int_def)
qed


text \<open>
  Claim C5, as amended.  \<^verbatim>\<open>checkImminentShutdown\<close> returns false and emits nothing when
  shutdown is not armed.  When it is armed, and the deadline is less than \<open>2\<^sup>1\<^sup>8\<close> minutes
  away in either direction, it returns true exactly when the remaining time, cut down to
  whole minutes, is at most 5, which is to say when less than six minutes remain; in that
  case it emits one warning to the requesting session, and otherwise none.  The warning
  says ``momentarily'' at 0 whole minutes (less than a minute to either side of the
  deadline), ``in 1 minute'' at 1 and ``in N minutes'' otherwise.  No package-level
  variable of the shutdown code is written.
\<close>

theorem checkImminentShutdown_whole_minutes:
  fixes K v now s
  defines "timeLeft \<equiv> ShutdownTimeout K - (now - datetimeShutdownInit v)"
  defines "r \<equiv> checkImminentShutdown K v now s"
  shows "(\<not> shuttingDown v \<longrightarrow> r = (False, [])) \<and>
         (shuttingDown v \<and> \<bar>timeLeft\<bar> < 2 ^ 18 * Minute \<longrightarrow>
            fst r = (Minutes_int timeLeft \<le> 5) \<and>
            fst r = (timeLeft < 6 * Minute) \<and>
            (\<not> fst r \<longrightarrow> snd r = []) \<and>
            (fst r \<longrightarrow>
               snd r =
                 [SessionWarning s
                    (''The server is shutting down '' @
                     (if - Minute < timeLeft \<and> timeLeft < Minute then ''momentarily''
                      else if Minute \<le> timeLeft \<and> timeLeft < 2 * Minute then ''in 1 minute''
                      else ''in '' @ Itoa (Minutes_int timeLeft) @ '' minutes'') @
                     ''. You cannot start any new games for the time being.'')])) \<and>
         apply_actions (snd r) v = v"
proof -
  have r: "r = (if \<not> shuttingDown v then (False, [])
      else if Minutes_int timeLeft \<le> 5 then
          (True,
           [SessionWarning s
              (''The server is shutting down '' @
               (if Minutes_int timeLeft = 0 then ''momentarily''
                else if Minutes_int timeLeft = 1 then ''in 1 minute''
                else ''in '' @ Itoa (Minutes_int timeLeft) @ '' minutes'') @
               ''. You cannot start any new games for the time being.'')])
        else (False, []))"
    unfolding r_def timeLeft_def checkImminentShutdown_def Let_def ..
  have le: "Minutes_int timeLeft \<le> 5 \<longleftrightarrow> timeLeft < 6 * Minute"
    using Minutes_int_le [of 5 timeLeft] by simp
  have a: "\<not> shuttingDown v \<Longrightarrow> r = (False, [])"
    by (simp add: r)
  have b: "shuttingDown v \<Longrightarrow> fst r = (Minutes_int timeLeft \<le> 5)"
    by (simp only: r if_False not_not if_True fst_conv split: if_split) simp
  have c: "shuttingDown v \<Longrightarrow> \<not> fst r \<Longrightarrow> snd r = []"
    using b by (simp only: r) simp
  have d: "shuttingDown v \<Longrightarrow> fst r \<Longrightarrow> snd r =
                 [SessionWarning s
                    (''The server is shutting down '' @
                     (if - Minute < timeLeft \<and> timeLeft < Minute then ''momentarily''
                      else if Minute \<le> timeLeft \<and> timeLeft < 2 * Minute then ''in 1 minute''
                      else ''in '' @ Itoa (Minutes_int timeLeft) @ '' minutes'') @
                     ''. You cannot start any new games for the time being.'')]"
    unfolding Minutes_int_0 [symmetric] Minutes_int_1 [symmetric]
    using b by (simp only: r) simp
  have e: "apply_actions (snd r) v = v"
    by (simp only: r) simp
  from a b c d e le show ?thesis by blast
qed

theorem checkImminentShutdown_whole_minutes_witness:
  "checkImminentShutdown K0 v_armed (25 * Minute + 30 * Second) s0 =
     (True, [SessionWarning s0
        ''The server is shutting down in 4 minutes. You cannot start any new games for the time being.''])"
proof -
  have bd: "\<bar>270 * Second\<bar> < 2 ^ 18 * Minute"
    by (simp add: Minute_def Second_def)
  have tl: "ShutdownTimeout K0 - ((25 * Minute + 30 * Second) - datetimeShutdownInit v_armed)
            = 270 * Second"
    by (simp add: K0_def v_armed_def Minute_def)
  have m: "Minutes_int (270 * Second) = 4"
    by (simp add: Minutes_int_def Minute_def Second_def)
  have i: "Itoa 4 = ''4''"
    by code_simp
  have armed: "shuttingDown v_armed" by (simp add: v_armed_def)
  have lt: "270 * Second < 6 * Minute" "\<not> 270 * Second < Minute"
    by (simp_all add: Minute_def Second_def)
  from checkImminentShutdown_whole_minutes [of v_armed K0 "25 * Minute + 30 * Second" s0]
    armed lt bd
  have "fst (checkImminentShutdown K0 v_armed (25 * Minute + 30 * Second) s0)"
    and "snd (checkImminentShutdown K0 v_armed (25 * Minute + 30 * Second) s0) =
      [SessionWarning s0 (''The server is shutting down '' @ (''in '' @ Itoa 4 @ '' minutes'') @
                     ''. You cannot start any new games for the time being.'')]"
    unfolding tl m by (simp_all add: Minute_def Second_def)
  then show ?thesis unfolding i by (simp add: prod_eq_iff)
qed

text \<open>
  The claim as first stated puts the threshold at a remaining time of five minutes.  With
  five and a half minutes remaining the remaining time is above five minutes and the
  function returns true.
\<close>

theorem checkImminentShutdown_counterexample:
  "shuttingDown v_armed \<and>
   ShutdownTimeout K0 - ((24 * Minute + 30 * Second) - datetimeShutdownInit v_armed) = 330 * Second \<and>
   \<not> 330 * Second \<le> 5 * Minute \<and>
   fst (checkImminentShutdown K0 v_armed (24 * Minute + 30 * Second) s0)"
  by (simp add: checkImminentShutdown_def K0_def v_armed_def Minutes_int_def Minute_def Second_def)


section \<open>Sending to a session\<close>

text \<open>
  The claim as first stated makes \<^verbatim>\<open>Emit\<close> a no-op on a session that has been closed.
  On a session whose \<^verbatim>\<open>Closed\<close> flag is set and whose connection is not nil, \<^verbatim>\<open>Emit\<close>
  writes the frame.
\<close>

theorem Emit_counterexample:
  "Closed (s0\<lparr>Closed := True\<rparr>) \<and>
   Emit (Inr :: string \<Rightarrow> string + string) (Some (s0\<lparr>Closed := True\<rparr>)) ''warning'' ''{}'' None =
     [WriteMessage 7 TextMessage ''warning {}'']"
  by (simp add: Emit_def s0_def)

text \<open>
  Claim C7, as amended.  \<^verbatim>\<open>Emit\<close> does nothing when the session is nil or its
  connection is nil.  It does not look at the \<^verbatim>\<open>Closed\<close> flag: it does the same on a
  session whatever the flag is.  Otherwise, when the payload cannot be serialised the
  message is dropped with a log line and nothing is written; when it can, exactly one
  frame is written, a text frame holding the command name, a space and the JSON payload.
\<close>

theorem Emit_frames:
  "Emit marshal None command d werr = [] \<and>
   (Conn s = None \<longrightarrow> Emit marshal (Some s) command d werr = []) \<and>
   Emit marshal (Some (s\<lparr>Closed := b\<rparr>)) command d werr = Emit marshal (Some s) command d werr \<and>
   (\<forall>conn. Conn s = Some conn \<longrightarrow>
      (\<forall>err. marshal d = Inl err \<longrightarrow>
         Emit marshal (Some s) command d werr =
           [SLoggerError (''Failed to marshal data when writing to a WebSocket session: '' @ err)]) \<and>
      (\<forall>ds. marshal d = Inr ds \<longrightarrow>
         filter is_write (Emit marshal (Some s) command d werr) =
           [WriteMessage conn TextMessage (command @ '' '' @ ds)]))"
  by (auto simp: Emit_def Let_def split: option.splits sum.splits)

theorem Emit_frames_witness:
  "filter is_write (Emit (\<lambda>d. Inr d) (Some s0) ''warning'' ''{}'' (Some ''broken pipe'')) =
     [WriteMessage 7 TextMessage ''warning {}''] \<and>
   Emit (\<lambda>d. Inl ''unsupported type'') (Some s0) ''warning'' ''{}'' None =
     [SLoggerError ''Failed to marshal data when writing to a WebSocket session: unsupported type''] \<and>
   Emit (\<lambda>d. Inr d) (Some (s0\<lparr>Conn := None\<rparr>)) ''warning'' ''{}'' None = []"
proof -
  have c: "Conn s0 = Some 7" "Conn (s0\<lparr>Conn := None\<rparr>) = None" by (simp_all add: s0_def)
  from Emit_frames [of "\<lambda>d. Inr d" "''warning''" "''{}''" "Some ''broken pipe''" s0] c(1)
  have 1: "filter is_write (Emit (\<lambda>d. Inr d) (Some s0) ''warning'' ''{}'' (Some ''broken pipe'')) =
     [WriteMessage 7 TextMessage ''warning {}'']" by simp
  from Emit_frames [of "\<lambda>d. Inl ''unsupported type''" "''warning''" "''{}''" None s0] c(1)
  have 2: "Emit (\<lambda>d. Inl ''unsupported type'') (Some s0) ''warning'' ''{}'' None =
     [SLoggerError ''Failed to marshal data when writing to a WebSocket session: unsupported type'']"
    by simp
  from Emit_frames [of "\<lambda>d. Inr d" "''warning''" "''{}''" None "s0\<lparr>Conn := None\<rparr>"] c(2)
  have 3: "Emit (\<lambda>d. Inr d) (Some (s0\<lparr>Conn := None\<rparr>)) ''warning'' ''{}'' None = []" by simp
  from 1 2 3 show ?thesis by simp
qed


section \<open>Session ids\<close>

lemma length_NewSession_calls: "length (fst (NewSession_calls K ts c)) = length ts"
  by (induction ts arbitrary: c) (simp_all add: Let_def)

lemma SessionID_NewSession: "SessionID (snd (NewSession K now c)) = c + 1" "fst (NewSession K now c) = c + 1"
  by (simp_all add: NewSession_def)

lemma nth_NewSession_calls:
  "i < length ts \<Longrightarrow> SessionID (fst (NewSession_calls K ts c) ! i) = c + 1 + of_nat i"
proof (induction ts arbitrary: c i)
  case Nil
  then show ?case by simp
next
  case (Cons now ts)
  show ?case
  proof (cases i)
    case 0
    then show ?thesis by (simp add: Let_def SessionID_NewSession)
  next
    case (Suc j)
    with Cons.prems have "j < length ts" by simp
    from Cons.IH [OF this, of "c + 1"] Suc show ?thesis
      by (simp add: Let_def SessionID_NewSession)
  qed
qed

lemma word64_of_nat_less:
  "i < j \<Longrightarrow> j < 2 ^ 64 \<Longrightarrow> (of_nat i :: 64 word) < of_nat j"
  by (simp add: word_of_nat_less_iff take_bit_nat_eq_self)

text \<open>
  Claim C8, as amended.  Session ids come from a counter that starts at 0 and is
  incremented before each assignment.  For every sequence of fewer than \<open>2\<^sup>6\<^sup>4\<close> calls of
  \<^verbatim>\<open>NewSession\<close>, the \<open>i\<close>-th session returned (counting from 0) has id \<open>i + 1\<close>, so the
  first id is 1, each id is strictly greater than every id returned before it, and no two
  sessions share an id.
\<close>

theorem NewSession_ids_increase:
  assumes "length ts < 2 ^ 64"
  shows "(\<forall>i<length ts. SessionID (fst (NewSession_calls K ts 0) ! i) = of_nat (i + 1)) \<and>
         (\<forall>i j. i < j \<and> j < length ts \<longrightarrow>
            SessionID (fst (NewSession_calls K ts 0) ! i)
              < SessionID (fst (NewSession_calls K ts 0) ! j)) \<and>
         distinct (map SessionID (fst (NewSession_calls K ts 0)))"
proof -
  let ?ss = "fst (NewSession_calls K ts 0)"
  have id: "SessionID (?ss ! i) = of_nat (i + 1)" if "i < length ts" for i
    using nth_NewSession_calls [OF that, of K 0] by simp
  have less: "SessionID (?ss ! i) < SessionID (?ss ! j)" if "i < j" "j < length ts" for i j
  proof -
    from that assms have "i + 1 < j + 1" "j + 1 < 2 ^ 64" by simp_all
    then have "(of_nat (i + 1) :: 64 word) < of_nat (j + 1)" by (rule word64_of_nat_less)
    with that show ?thesis by (simp add: id)
  qed
  have ne: "SessionID (?ss ! i) \<noteq> SessionID (?ss ! j)"
    if "i < length ts" "j < length ts" "i \<noteq> j" for i j
  proof (cases "i < j")
    case True
    from less [OF True that(2)] show ?thesis by simp
  next
    case False
    with that(3) have "j < i" by simp
    from less [OF this that(1)] show ?thesis by simp
  qed
  have d: "distinct (map SessionID ?ss)"
    unfolding distinct_conv_nth by (simp add: length_NewSession_calls ne)
  show ?thesis
  proof (intro conjI allI impI)
    fix i assume "i < length ts"
    then show "SessionID (?ss ! i) = of_nat (i + 1)" by (rule id)
  next
    fix i j assume "i < j \<and> j < length ts"
    then show "SessionID (?ss ! i) < SessionID (?ss ! j)" using less by blast
  next
    show "distinct (map SessionID ?ss)" by (rule d)
  qed
qed

theorem NewSession_ids_increase_witness:
  "map SessionID (fst (NewSession_calls K0 [10, 20, 30] 0)) = [1, 2, 3] \<and>
   SessionID (fst (NewSession_calls K0 [10, 20, 30] 0) ! 0)
     < SessionID (fst (NewSession_calls K0 [10, 20, 30] 0) ! 2)"
proof -
  have l: "length [10, 20, 30 :: int] < 2 ^ 64" by simp
  from NewSession_ids_increase [OF l, of K0]
  have "SessionID (fst (NewSession_calls K0 [10, 20, 30] 0) ! 0)
     < SessionID (fst (NewSession_calls K0 [10, 20, 30] 0) ! 2)" by simp
  moreover have "map SessionID (fst (NewSession_calls K0 [10, 20, 30] 0)) = [1, 2, 3]"
    by (simp add: NewSession_def Let_def)
  ultimately show ?thesis by simp
qed

text \<open>
  The claim as first stated speaks of every sequence of calls.  The counter is a uint64:
  in a sequence of \<open>2\<^sup>6\<^sup>4\<close> calls the first session has id 1 and the last has id 0,
  which is not greater.
\<close>

theorem NewSession_ids_counterexample:
  "SessionID (fst (NewSession_calls K0 (replicate (2 ^ 64) 0) 0) ! 0) = 1 \<and>
   SessionID (fst (NewSession_calls K0 (replicate (2 ^ 64) 0) 0) ! (2 ^ 64 - 1)) = 0"
proof -
  have a: "(0::nat) < length (replicate (2 ^ 64) (0::int))"
    unfolding length_replicate by simp
  have b: "(2 ^ 64 - 1 :: nat) < length (replicate (2 ^ 64) (0::int))"
    unfolding length_replicate by simp
  have w: "(0::64 word) + 1 + of_nat (2 ^ 64 - 1) = 0" by simp
  have z: "(0::64 word) + 1 + of_nat 0 = 1" by simp
  from nth_NewSession_calls [OF a, of K0 0] nth_NewSession_calls [OF b, of K0 0]
  show ?thesis by (simp only: w z)
qed


section \<open>Failure paths of the handshake\<close>









section \<open>Replay navigation\<close>

lemma clamp_Fin: "clamp (Fin n) (Fin 0) (Fin f) = Fin (max 0 (min n f))"
  by (simp add: clamp_def Math_min_def Math_max_def max_def min_def)

lemma clamp_NaN: "clamp NaN lo hi = NaN"
  by (simp add: clamp_def Math_min_def Math_max_def)

lemma clamp_Inf:
  "0 \<le> f \<Longrightarrow> clamp PosInf (Fin 0) (Fin f) = Fin f"
  "clamp NegInf (Fin 0) (Fin f) = Fin 0"
  by (simp_all add: clamp_def Math_min_def Math_max_def)

lemma goToSegment_targets:
  "a \<in> set (goToSegment g state segment breakFree force) \<Longrightarrow> target a = Some m \<Longrightarrow>
   m = clamp segment (Fin 0) (toNumber (ongoingGame_turn_segment state))"
  by (auto simp: goToSegment_def enter_def Let_def split: if_splits)

lemma goToSegment_noop:
  "strict_eq (getCurrentReplaySegment state)
     (clamp segment (Fin 0) (toNumber (ongoingGame_turn_segment state)))
   \<or> (hypothetical g \<and> \<not> force) \<Longrightarrow>
   goToSegment g state segment breakFree force = []"
  by (auto simp: goToSegment_def Let_def)

lemma goToSegment_in_range:
  assumes "ongoingGame_turn_segment state = Some (Fin f)" and "0 \<le> f" and "segment \<noteq> NaN"
  shows "\<exists>c. clamp segment (Fin 0) (Fin f) = Fin c \<and> 0 \<le> c \<and> c \<le> f \<and>
             (\<forall>n. segment = Fin n \<and> 0 \<le> n \<and> n \<le> f \<longrightarrow> c = n) \<and>
             (\<forall>a\<in>set (goToSegment g state segment breakFree force).
                \<forall>m. target a = Some m \<longrightarrow> m = Fin c) \<and>
             (strict_eq (getCurrentReplaySegment state) (Fin c) \<or> (hypothetical g \<and> \<not> force)
                \<longrightarrow> goToSegment g state segment breakFree force = [])"
proof -
  have t: "toNumber (ongoingGame_turn_segment state) = Fin f"
    using assms(1) by (simp add: toNumber_def)
  obtain c where c: "clamp segment (Fin 0) (Fin f) = Fin c" "0 \<le> c" "c \<le> f"
    "\<forall>n. segment = Fin n \<and> 0 \<le> n \<and> n \<le> f \<longrightarrow> c = n"
  proof (cases segment)
    case NaN
    with assms(3) show ?thesis by simp
  next
    case NegInf
    with assms(2) that [of 0] show ?thesis by (simp add: clamp_Inf)
  next
    case (Fin n)
    with assms(2) that [of "max 0 (min n f)"] show ?thesis by (simp add: clamp_Fin)
  next
    case PosInf
    with assms(2) that [of f] show ?thesis by (simp add: clamp_Inf)
  qed
  have "\<forall>a\<in>set (goToSegment g state segment breakFree force).
                \<forall>m. target a = Some m \<longrightarrow> m = Fin c"
    using goToSegment_targets [of _ g state segment breakFree force] by (simp add: t c(1))
  moreover have "strict_eq (getCurrentReplaySegment state) (Fin c) \<or> (hypothetical g \<and> \<not> force)
                \<longrightarrow> goToSegment g state segment breakFree force = []"
    using goToSegment_noop [of state segment g force breakFree] by (simp add: t c(1))
  ultimately show ?thesis using c by blast
qed

text \<open>
  Claim C10.  \<^verbatim>\<open>goToSegment\<close> is meant to bring every requested segment into the range
  from 0 to the final segment before acting: its comment says that the target must lie
  between 0 and the final segment, and for every request that is a number in the
  ordinary sense it does (the lemma above; a request within the range is kept, one
  outside goes to the nearer end, and nothing is dispatched when the result is the
  current segment).  A request of \<^verbatim>\<open>NaN\<close> slips through: \<^verbatim>\<open>Math.min\<close> and \<^verbatim>\<open>Math.max\<close>
  return \<^verbatim>\<open>NaN\<close>, the comparison with the current segment is false, and \<^verbatim>\<open>NaN\<close> is
  dispatched as the new segment.  \<^verbatim>\<open>barClick\<close> and \<^verbatim>\<open>barDrag\<close> pass \<^verbatim>\<open>NaN\<close> when the
  final segment is 0, since they divide by it; \<^verbatim>\<open>promptTurn\<close> checks for \<^verbatim>\<open>NaN\<close> before
  it calls.
\<close>

theorem goToSegment_NaN_unclamped:
  "clamp (Fin n) (Fin 0) (Fin f) = Fin (max 0 (min n f)) \<and>
   clamp NaN (Fin 0) (Fin f) = NaN \<and>
   getCurrentReplaySegment st_unmoved = Some (Fin 0) \<and>
   goToSegment g0 st_unmoved NaN True False = [ReplayEnter NaN, ReplaySegment NaN] \<and>
   goToSegment g0 st0 NaN True False = [ReplaySegment NaN] \<and>
   goToSegment g0 st0 (Fin 25) True False = [ReplaySegment (Fin 10)] \<and>
   goToSegment g0 st0 (Fin 7) True False = [ReplaySegment (Fin 7)] \<and>
   goToSegment g0 st0 (Fin 3) True False = []"
  by (simp add: clamp_Fin clamp_NaN goToSegment_def getCurrentReplaySegment_def st_unmoved_def
      st0_def g0_def enter_def strict_eq_def toNumber_def)

end
